theory Spec2Isabelle
  imports Main "HOL-Library.Sublist"
begin

section \<open>Data model of \<open>bin/ci-deploy.py\<close>\<close>

text \<open>
  The exceptions the script raises or lets through. \<open>DeployError\<close> carries its message;
  \<open>RequestError\<close> stands for whatever \<open>session.get\<close> raises on a network failure and
  \<open>JSONDecodeError\<close> for a body that \<open>res.json()\<close> cannot parse.
\<close>

datatype exn =
    KeyError
  | DeployError string
  | ConfigError string
  | RequestError
  | JSONDecodeError

text \<open>
  A GitPython commit object: \<open>commit.hexsha\<close>, \<open>commit.tree\<close> and \<open>commit.parents\<close>.
  The tree is read only through \<open>tree[path].hexsha\<close>, so it is the partial map from a path
  to the hash of the object stored there; a path that is absent raises \<open>KeyError\<close>.
  Parents are commit objects again: the history is a finite acyclic graph, and the
  recursion of \<open>find_commits\<close> unfolds it along the parent links.
\<close>

type_synonym git_tree = "string \<rightharpoonup> string"

datatype commit = Commit (hexsha: string) (tree: git_tree) (parents: "commit list")

text \<open>A deployment profile, the dictionary built by \<open>asset_profile\<close> and \<open>server_profile\<close>.\<close>

record profile =
  ssh :: string
  deploy_dir :: string
  files :: "string list"
  workflow_url :: string
  artifact_name :: string
  symlinks :: "string list"
  post :: string

definition ASSETS_FILES :: "string list" where
  "ASSETS_FILES =
     [''.github/workflows/assets.yml'', ''public'', ''ui'', ''package.json'', ''yarn.lock'']"

definition SERVER_FILES :: "string list" where
  "SERVER_FILES =
     [''.github/workflows/server.yml'', ''app'', ''conf'', ''modules'', ''project'',
      ''translation'', ''build.sbt'', ''lila'', ''conf/application.conf.default'',
      ''.sbtopts.default'']"

definition ASSETS_BUILD_URL :: string where
  "ASSETS_BUILD_URL =
     ''https://api.github.com/repos/ornicar/lila/actions/workflows/assets.yml/runs''"

definition SERVER_BUILD_URL :: string where
  "SERVER_BUILD_URL =
     ''https://api.github.com/repos/ornicar/lila/actions/workflows/server.yml/runs''"

definition asset_profile :: "string \<Rightarrow> string \<Rightarrow> string \<Rightarrow> profile" where
  "asset_profile s dir p =
     \<lparr>ssh = s, deploy_dir = dir, files = ASSETS_FILES, workflow_url = ASSETS_BUILD_URL,
      artifact_name = ''lila-assets'', symlinks = [''public''], post = p\<rparr>"

definition server_profile :: "string \<Rightarrow> string \<Rightarrow> string \<Rightarrow> profile" where
  "server_profile s dir p =
     \<lparr>ssh = s, deploy_dir = dir, files = SERVER_FILES, workflow_url = SERVER_BUILD_URL,
      artifact_name = ''lila-server'', symlinks = [''lib'', ''bin''], post = p\<rparr>"

section \<open>The commit matcher\<close>

text \<open>
  \<open>hash_files(tree, files)\<close> builds the tuple of \<open>tree[path].hexsha\<close> in the order of
  \<open>files\<close>; the first absent path raises \<open>KeyError\<close>.
\<close>

fun hash_files :: "git_tree \<Rightarrow> string list \<Rightarrow> exn + string list" where
  "hash_files t [] = Inr []"
| "hash_files t (path # paths) =
     (case t path of
        None \<Rightarrow> Inl KeyError
      | Some h \<Rightarrow>
          (case hash_files t paths of
             Inl e \<Rightarrow> Inl e
           | Inr hs \<Rightarrow> Inr (h # hs)))"

text \<open>
  \<open>find_commits\<close> is a generator; the model returns the list of the values it yields,
  in order. A \<open>KeyError\<close> and a tuple different from \<open>wanted_hash\<close> both end the call
  before anything is yielded.
\<close>

fun find_commits :: "commit \<Rightarrow> string list \<Rightarrow> string list \<Rightarrow> string list" where
  "find_commits (Commit sha t ps) fs wanted_hash =
     (case hash_files t fs of
        Inl e \<Rightarrow> []
      | Inr hs \<Rightarrow>
          if hs \<noteq> wanted_hash then []
          else sha # concat (map (\<lambda>parent. find_commits parent fs wanted_hash) ps))"

text \<open>
  The same recursion, recording the commits on which \<open>find_commits\<close> is entered
  (the call log of the traversal) instead of the values it yields.
\<close>

fun find_commits_calls :: "commit \<Rightarrow> string list \<Rightarrow> string list \<Rightarrow> commit list" where
  "find_commits_calls (Commit sha t ps) fs wanted_hash =
     Commit sha t ps #
     (case hash_files t fs of
        Inl e \<Rightarrow> []
      | Inr hs \<Rightarrow>
          if hs \<noteq> wanted_hash then []
          else concat (map (\<lambda>parent. find_commits_calls parent fs wanted_hash) ps))"

text \<open>
  Specification vocabulary for the matcher. A commit matches when every tracked path is
  in its tree and the hashes, in path order, are the wanted tuple. \<open>reachable c d\<close>: \<open>d\<close>
  is reached from \<open>c\<close> by parent links. \<open>match_chain fs w c d\<close>: it is reached along a
  chain of parent links on which every commit, \<open>c\<close> and \<open>d\<close> included, matches.
\<close>

definition matches :: "string list \<Rightarrow> string list \<Rightarrow> commit \<Rightarrow> bool" where
  "matches fs wanted_hash c \<longleftrightarrow>
     set fs \<subseteq> dom (tree c) \<and> map (\<lambda>path. the (tree c path)) fs = wanted_hash"

inductive reachable :: "commit \<Rightarrow> commit \<Rightarrow> bool" where
  reachable_self: "reachable c c"
| reachable_parent: "p \<in> set (parents c) \<Longrightarrow> reachable p d \<Longrightarrow> reachable c d"

inductive match_chain :: "string list \<Rightarrow> string list \<Rightarrow> commit \<Rightarrow> commit \<Rightarrow> bool"
  for fs :: "string list" and wanted_hash :: "string list" where
  chain_self: "matches fs wanted_hash c \<Longrightarrow> match_chain fs wanted_hash c c"
| chain_parent:
    "matches fs wanted_hash c \<Longrightarrow> p \<in> set (parents c) \<Longrightarrow> match_chain fs wanted_hash p d
     \<Longrightarrow> match_chain fs wanted_hash c d"

section \<open>Workflow runs, the feed and the run cache\<close>

text \<open>
  A run object of the GitHub feed, with the keys the script reads: \<open>run["id"]\<close>,
  \<open>run["status"]\<close>, \<open>run["conclusion"]\<close> (JSON \<open>null\<close> while the run is not finished),
  \<open>run["head_commit"]["id"]\<close>, \<open>run["artifacts_url"]\<close> and \<open>run["html_url"]\<close>.
  A run stored in the cache has the key \<open>_workflow_url\<close> in addition, set by
  \<open>workflow_runs\<close> before it stores the run. Every run object has all of its keys, so
  reading one never raises.
\<close>

record api_run =
  run_id :: int
  status :: string
  conclusion :: "string option"
  head_commit_id :: string
  artifacts_url :: string
  html_url :: string

record run = api_run +
  x_workflow_url :: string

record artifact =
  name :: string
  expired :: bool
  archive_download_url :: string

text \<open>
  What \<open>res.json()\<close> gives: a feed page, an artifact listing, some other JSON value, or
  no JSON at all. \<open>session.get(url)\<close> either raises or returns a response, of which the
  script reads \<open>status_code\<close>, \<open>text\<close>, \<open>json()\<close> and \<open>links["next"]["url"]\<close>.
\<close>

datatype json_body =
    JsonRuns "api_run list"
  | JsonArtifacts "artifact list"
  | JsonOther
  | NotJson

record response =
  status_code :: int
  res_text :: string
  body :: json_body
  links_next :: "string option"

type_synonym session = "string \<Rightarrow> exn + response"

text \<open>\<open>res.json()["workflow_runs"]\<close> and \<open>res.json()["artifacts"]\<close>.\<close>

fun json_workflow_runs :: "json_body \<Rightarrow> exn + api_run list" where
  "json_workflow_runs (JsonRuns rs) = Inr rs"
| "json_workflow_runs (JsonArtifacts as) = Inl KeyError"
| "json_workflow_runs JsonOther = Inl KeyError"
| "json_workflow_runs NotJson = Inl JSONDecodeError"

fun json_artifacts :: "json_body \<Rightarrow> exn + artifact list" where
  "json_artifacts (JsonArtifacts as) = Inr as"
| "json_artifacts (JsonRuns rs) = Inl KeyError"
| "json_artifacts JsonOther = Inl KeyError"
| "json_artifacts NotJson = Inl JSONDecodeError"

text \<open>
  What the script does to the outside, in order: the HTTP requests of \<open>session.get\<close> and
  the lines it prints, one constructor for each \<open>print\<close> with the values it formats.
\<close>

datatype event =
    HttpGet string
  | PrintPreparing
  | PrintFound nat
  | PrintCreated
  | PrintFetching
  | PrintUnexpected int string
  | PrintAdded nat
  | PrintMatching
  | PrintPending string
  | PrintFailed string
  | PrintSucceeded string
  | PrintSelected string
  | PrintExpired
  | PrintDeploying string string

text \<open>
  The run cache is a Python dictionary from run id to run. Iteration follows insertion
  order, and \<open>data[k] = v\<close> replaces the value of a present key in place and appends an
  absent key, so the model is an association list with \<open>dict_set\<close> as the assignment.
\<close>

type_synonym run_cache = "(int \<times> run) list"

fun dict_set :: "('k \<times> 'v) list \<Rightarrow> 'k \<Rightarrow> 'v \<Rightarrow> ('k \<times> 'v) list" where
  "dict_set [] k v = [(k, v)]"
| "dict_set ((k', v') # kvs) k v =
     (if k' = k then (k, v) # kvs else (k', v') # dict_set kvs k v)"

text \<open>
  The repository as the script uses it: \<open>repo.head.commit\<close> and the file
  \<open>workflow_runs.pickle\<close> under \<open>repo.common_dir\<close>, which is empty (or created by the
  \<open>open\<close>) or holds the dictionary that an earlier \<open>pickle.dump\<close> wrote there.
\<close>

record repo =
  head_commit :: commit
  cache_file :: "run_cache option"

section \<open>The run cache synchronizer\<close>

definition tag_run :: "string \<Rightarrow> api_run \<Rightarrow> run" where
  "tag_run url r =
     \<lparr>run_id = run_id r, status = status r, conclusion = conclusion r,
      head_commit_id = head_commit_id r, artifacts_url = artifacts_url r,
      html_url = html_url r, x_workflow_url = url\<rparr>"

text \<open>\<open>run["id"] in data and data[run["id"]]["status"] == "completed"\<close>\<close>

definition known_completed :: "run_cache \<Rightarrow> api_run \<Rightarrow> bool" where
  "known_completed data r =
     (case map_of data (run_id r) of
        None \<Rightarrow> False
      | Some c \<Rightarrow> status c = ''completed'')"

text \<open>The \<open>for run in res.json()["workflow_runs"]\<close> loop, on the state \<open>(data, new, synced)\<close>.\<close>

fun merge_runs ::
  "string \<Rightarrow> api_run list \<Rightarrow> run_cache \<times> nat \<times> bool \<Rightarrow> run_cache \<times> nat \<times> bool" where
  "merge_runs url [] (data, new, synced) = (data, new, synced)"
| "merge_runs url (r # rs) (data, new, synced) =
     merge_runs url rs
       (dict_set data (run_id r) (tag_run url r),
        (if known_completed data r then new else new + 1),
        (if known_completed data r then True else synced))"

text \<open>
  The \<open>while not synced\<close> loop, entered at \<open>url\<close> with the dictionary \<open>data\<close> and the
  counter \<open>new\<close>. The loop may run forever (a feed whose \<open>next\<close> links never end), which
  is the value \<open>None\<close>. Otherwise the result is the exception that left the loop, if
  any, the dictionary and the counter at that moment, and the events from this point
  on. \<open>synced\<close> is \<open>False\<close> whenever the loop body is entered.
\<close>

partial_function (option) fetch_loop ::
  "profile \<Rightarrow> session \<Rightarrow> string \<Rightarrow> run_cache \<Rightarrow> nat
     \<Rightarrow> (exn option \<times> run_cache \<times> nat \<times> event list) option" where
  "fetch_loop profile session url data new =
     (case session url of
        Inl e \<Rightarrow> Some (Some e, data, new, [PrintFetching, HttpGet url])
      | Inr res \<Rightarrow>
          if status_code res \<noteq> 200
          then Some (None, data, new,
                 [PrintFetching, HttpGet url, PrintUnexpected (status_code res) (res_text res)])
          else
            (case json_workflow_runs (body res) of
               Inl e \<Rightarrow> Some (Some e, data, new, [PrintFetching, HttpGet url])
             | Inr runs \<Rightarrow>
                 (case merge_runs (workflow_url profile) runs (data, new, False) of
                    (data', new', synced) \<Rightarrow>
                      (case links_next res of
                         None \<Rightarrow> Some (None, data', new', [PrintFetching, HttpGet url])
                       | Some next_url \<Rightarrow>
                           if synced
                           then Some (None, data', new', [PrintFetching, HttpGet url])
                           else Option.bind
                                  (fetch_loop profile session next_url data' new')
                                  (\<lambda>(e, d, n, evs).
                                     Some (e, d, n, PrintFetching # HttpGet url # evs))))))"

text \<open>
  \<open>workflow_runs\<close>: load the dictionary (an empty file raises \<open>EOFError\<close> and gives the
  empty dictionary), run the loop, and in the \<open>finally\<close> block rewrite the file with the
  dictionary as it is then. The result is the returned dictionary or the exception that
  propagates, the repository with the rewritten file, and the events.
\<close>

definition workflow_runs ::
  "profile \<Rightarrow> session \<Rightarrow> repo \<Rightarrow> ((exn + run_cache) \<times> repo \<times> event list) option" where
  "workflow_runs profile session repo =
     (case (case cache_file repo of
              None \<Rightarrow> ([], [PrintCreated])
            | Some d \<Rightarrow> (d, [])) of
        (data, created) \<Rightarrow>
          (case fetch_loop profile session (workflow_url profile) data 0 of
             None \<Rightarrow> None
           | Some (err, data', new, evs) \<Rightarrow>
               Some ((case err of None \<Rightarrow> Inr data' | Some e \<Rightarrow> Inl e),
                     repo\<lparr>cache_file := Some data'\<rparr>,
                     created @ evs @ [PrintAdded new])))"

section \<open>The run locator and the artifact resolver\<close>

text \<open>
  The loop of \<open>find_workflow_run\<close> over \<open>runs.values()\<close>, with the variable \<open>found\<close>: the
  result is \<open>found\<close> after the loop and the lines printed by it.
\<close>

fun scan_runs ::
  "profile \<Rightarrow> string set \<Rightarrow> run list \<Rightarrow> run option \<Rightarrow> run option \<times> event list" where
  "scan_runs profile wanted_commits [] found = (found, [])"
| "scan_runs profile wanted_commits (run # runs) found =
     (if head_commit_id run \<notin> wanted_commits \<or> x_workflow_url run \<noteq> workflow_url profile
      then scan_runs profile wanted_commits runs found
      else if status run \<noteq> ''completed''
      then (case scan_runs profile wanted_commits runs found of
              (f, evs) \<Rightarrow> (f, PrintPending (html_url run) # evs))
      else if conclusion run \<noteq> Some ''success''
      then (case scan_runs profile wanted_commits runs found of
              (f, evs) \<Rightarrow> (f, PrintFailed (html_url run) # evs))
      else (case scan_runs profile wanted_commits runs
                   (if found = None then Some run else found) of
              (f, evs) \<Rightarrow> (f, PrintSucceeded (html_url run) # evs)))"

definition find_workflow_run ::
  "profile \<Rightarrow> run_cache \<Rightarrow> string set \<Rightarrow> (exn + run) \<times> event list" where
  "find_workflow_run profile runs wanted_commits =
     (case scan_runs profile wanted_commits (map snd runs) None of
        (None, evs) \<Rightarrow>
          (Inl (DeployError ''Did not find successful matching workflow run.''),
           PrintMatching # evs)
      | (Some found, evs) \<Rightarrow>
          (Inr found, PrintMatching # evs @ [PrintSelected (html_url found)]))"

text \<open>The loop of \<open>artifact_url\<close> over the listing, and the function with its request.\<close>

fun find_artifact :: "artifact list \<Rightarrow> string \<Rightarrow> (exn + string) \<times> event list" where
  "find_artifact [] nm = (Inl (DeployError (''Did not find artifact '' @ nm @ ''.'')), [])"
| "find_artifact (a # as) nm =
     (if name a = nm
      then (Inr (archive_download_url a), (if expired a then [PrintExpired] else []))
      else find_artifact as nm)"

definition artifact_url :: "session \<Rightarrow> run \<Rightarrow> string \<Rightarrow> (exn + string) \<times> event list" where
  "artifact_url session run nm =
     (case session (artifacts_url run) of
        Inl e \<Rightarrow> (Inl e, [HttpGet (artifacts_url run)])
      | Inr res \<Rightarrow>
          (case json_artifacts (body res) of
             Inl e \<Rightarrow> (Inl e, [HttpGet (artifacts_url run)])
           | Inr as \<Rightarrow>
               (case find_artifact as nm of
                  (r, evs) \<Rightarrow> (r, HttpGet (artifacts_url run) # evs))))"

section \<open>The deploy operation\<close>

text \<open>
  The first steps of \<open>deploy\<close>: the wanted tuple from the tree of the commit to deploy
  (a \<open>KeyError\<close> becomes the \<open>DeployError\<close>), then the set of the ids that
  \<open>find_commits\<close> yields from \<open>repo.head.commit\<close>.
\<close>

definition deploy_wanted_commits :: "profile \<Rightarrow> repo \<Rightarrow> commit \<Rightarrow> exn + string set" where
  "deploy_wanted_commits profile repo commit =
     (case hash_files (tree commit) (files profile) of
        Inl e \<Rightarrow>
          (if e = KeyError then Inl (DeployError ''Commit is missing a required file.'')
           else Inl e)
      | Inr wanted_hash \<Rightarrow>
          Inr (set (find_commits (head_commit repo) (files profile) wanted_hash)))"

text \<open>
  \<open>deploy\<close> up to the hand-over to the remote shell: the result is the selected run and
  the artifact URL that \<open>deploy_script\<close> and \<open>tmux\<close> receive, or the exception that
  propagates. The remote installation itself is outside the model.
\<close>

definition deploy ::
  "profile \<Rightarrow> session \<Rightarrow> repo \<Rightarrow> commit
     \<Rightarrow> ((exn + run \<times> string) \<times> repo \<times> event list) option" where
  "deploy profile session repo commit =
     (case deploy_wanted_commits profile repo commit of
        Inl e \<Rightarrow> Some (Inl e, repo, [PrintPreparing])
      | Inr wanted_commits \<Rightarrow>
          (case workflow_runs profile session repo of
             None \<Rightarrow> None
           | Some (Inl e, repo', evs) \<Rightarrow>
               Some (Inl e, repo', PrintPreparing # PrintFound (card wanted_commits) # evs)
           | Some (Inr runs, repo', evs) \<Rightarrow>
               (case find_workflow_run profile runs wanted_commits of
                  (Inl e, evs2) \<Rightarrow>
                    Some (Inl e, repo',
                          PrintPreparing # PrintFound (card wanted_commits) # evs @ evs2)
                | (Inr run, evs2) \<Rightarrow>
                    (case artifact_url session run (artifact_name profile) of
                       (Inl e, evs3) \<Rightarrow>
                         Some (Inl e, repo',
                               PrintPreparing # PrintFound (card wanted_commits)
                                 # evs @ evs2 @ evs3)
                     | (Inr url, evs3) \<Rightarrow>
                         Some (Inr (run, url), repo',
                               PrintPreparing # PrintFound (card wanted_commits)
                                 # evs @ evs2 @ evs3
                                 @ [PrintDeploying url (ssh profile)])))))"

section \<open>Specification vocabulary for the run cache and the locator\<close>

text \<open>
  The URLs requested, in order; the runs of the page behind a URL as the synchronizer
  takes them (none when the request raises, the status is not 200 or the body has no
  run list); the runs of a list of pages; and the dictionary after storing a list of
  runs, each under its id with the feed tag.
\<close>

fun requests :: "event list \<Rightarrow> string list" where
  "requests [] = []"
| "requests (HttpGet u # evs) = u # requests evs"
| "requests (e # evs) = requests evs"

definition page_runs :: "session \<Rightarrow> string \<Rightarrow> api_run list" where
  "page_runs session url =
     (case session url of
        Inl e \<Rightarrow> []
      | Inr res \<Rightarrow>
          if status_code res \<noteq> 200 then []
          else (case json_workflow_runs (body res) of Inl e \<Rightarrow> [] | Inr rs \<Rightarrow> rs))"

definition fetched_runs :: "session \<Rightarrow> string list \<Rightarrow> api_run list" where
  "fetched_runs session urls = concat (map (page_runs session) urls)"

definition store_runs :: "string \<Rightarrow> run_cache \<Rightarrow> api_run list \<Rightarrow> run_cache" where
  "store_runs url data rs = foldl (\<lambda>d r. dict_set d (run_id r) (tag_run url r)) data rs"

text \<open>The dictionary that \<open>workflow_runs\<close> starts from.\<close>

definition cached_runs :: "repo \<Rightarrow> run_cache" where
  "cached_runs repo = (case cache_file repo of None \<Rightarrow> [] | Some d \<Rightarrow> d)"

text \<open>
  A run is considered by the locator when its head commit is wanted and its feed tag is
  the profile's feed; it is successful when it is completed with conclusion success.
\<close>

definition considered :: "profile \<Rightarrow> string set \<Rightarrow> run \<Rightarrow> bool" where
  "considered profile wanted_commits r \<longleftrightarrow>
     head_commit_id r \<in> wanted_commits \<and> x_workflow_url r = workflow_url profile"

definition successful :: "run \<Rightarrow> bool" where
  "successful r \<longleftrightarrow> status r = ''completed'' \<and> conclusion r = Some ''success''"

text \<open>
  The history of the specification's scenario, with the tracked paths \<open>app\<close> and \<open>conf\<close>:
  the head \<open>X\<close>, its parent \<open>Z\<close> whose \<open>conf\<close> differs, and below \<open>Z\<close> the commit
  \<open>Y\<close> with the trees of \<open>X\<close> again, on top of a root commit \<open>R\<close>.
\<close>

definition scenario_files :: "string list" where
  "scenario_files = [''app'', ''conf'']"

definition scenario_wanted :: "string list" where
  "scenario_wanted = [''a1'', ''c1'']"

definition scenario_R :: commit where
  "scenario_R = Commit ''R'' [''app'' \<mapsto> ''a1'', ''conf'' \<mapsto> ''c1''] []"

definition scenario_Y :: commit where
  "scenario_Y = Commit ''Y'' [''app'' \<mapsto> ''a1'', ''conf'' \<mapsto> ''c1''] [scenario_R]"

definition scenario_Z :: commit where
  "scenario_Z = Commit ''Z'' [''app'' \<mapsto> ''a1'', ''conf'' \<mapsto> ''c2''] [scenario_Y]"

definition scenario_X :: commit where
  "scenario_X = Commit ''X'' [''app'' \<mapsto> ''a1'', ''conf'' \<mapsto> ''c1''] [scenario_Z]"

text \<open>
  A merge history for the same paths: the head \<open>M\<close> has the parents \<open>Z\<close> (pruned) and
  \<open>Y\<close> (matching), so \<open>Y\<close> and \<open>R\<close> are found through the second parent.
\<close>

definition scenario_M :: commit where
  "scenario_M =
     Commit ''M'' [''app'' \<mapsto> ''a1'', ''conf'' \<mapsto> ''c1''] [scenario_Z, scenario_Y]"

text \<open>
  Scenario data for the locator, the resolver and the synchronizer: the profile of the
  staging server with the two tracked paths of the scenario, runs of the feed, a cache
  in which a pending, a failed, an unwanted and a foreign-feed run precede two
  successful runs of the wanted commit, and remote sides that answer the feed URL.
\<close>

definition scenario_profile :: profile where
  "scenario_profile =
     (server_profile ''root@khiaw.lichess.ovh'' ''/home/lichess-deploy''
        ''systemctl restart lichess-stage'')\<lparr>files := scenario_files\<rparr>"

definition scenario_run :: "int \<Rightarrow> string \<Rightarrow> string option \<Rightarrow> string \<Rightarrow> api_run" where
  "scenario_run i st c sha =
     \<lparr>run_id = i, status = st, conclusion = c, head_commit_id = sha,
      artifacts_url = ''artifacts/'' @ sha, html_url = ''runs/'' @ sha\<rparr>"

definition scenario_cache :: run_cache where
  "scenario_cache =
     [(1, tag_run SERVER_BUILD_URL (scenario_run 1 ''in_progress'' None ''X'')),
      (2, tag_run SERVER_BUILD_URL (scenario_run 2 ''completed'' (Some ''failure'') ''X'')),
      (3, tag_run SERVER_BUILD_URL (scenario_run 3 ''completed'' (Some ''success'') ''Z'')),
      (4, tag_run ASSETS_BUILD_URL (scenario_run 4 ''completed'' (Some ''success'') ''X'')),
      (5, tag_run SERVER_BUILD_URL (scenario_run 5 ''completed'' (Some ''success'') ''X'')),
      (6, tag_run SERVER_BUILD_URL (scenario_run 6 ''completed'' (Some ''success'') ''X''))]"

definition scenario_page1 :: response where
  "scenario_page1 =
     \<lparr>status_code = 200, res_text = [],
      body = JsonRuns [scenario_run 6 ''completed'' (Some ''success'') ''X'',
                       scenario_run 5 ''in_progress'' None ''X''],
      links_next = Some ''page2''\<rparr>"

definition scenario_page2 :: response where
  "scenario_page2 =
     \<lparr>status_code = 200, res_text = [],
      body = JsonRuns [scenario_run 4 ''completed'' (Some ''success'') ''Z'',
                       scenario_run 3 ''completed'' (Some ''failure'') ''X''],
      links_next = None\<rparr>"

definition scenario_artifacts :: response where
  "scenario_artifacts =
     \<lparr>status_code = 200, res_text = [],
      body = JsonArtifacts
               [\<lparr>name = ''lila-assets'', expired = False, archive_download_url = ''zip/assets''\<rparr>,
                \<lparr>name = ''lila-server'', expired = True, archive_download_url = ''zip/server''\<rparr>],
      links_next = None\<rparr>"

definition scenario_session :: session where
  "scenario_session url =
     (if url = SERVER_BUILD_URL then Inr scenario_page1
      else if url = ''page2'' then Inr scenario_page2
      else if url = ''artifacts/X'' then Inr scenario_artifacts
      else Inl RequestError)"

text \<open>A remote side that answers every request with status 500.\<close>

definition outage_session :: session where
  "outage_session url =
     Inr \<lparr>status_code = 500, res_text = ''Internal Server Error'', body = NotJson,
          links_next = None\<rparr>"

text \<open>Remote sides whose second page answers with status 502, or cannot be reached.\<close>

definition flaky_session :: session where
  "flaky_session url =
     (if url = SERVER_BUILD_URL then Inr scenario_page1
      else if url = ''page2''
      then Inr \<lparr>status_code = 502, res_text = ''Bad Gateway'', body = NotJson,
                links_next = None\<rparr>
      else Inl RequestError)"

definition broken_session :: session where
  "broken_session url =
     (if url = SERVER_BUILD_URL then Inr scenario_page1 else Inl RequestError)"

text \<open>
  A run that was completed when it was cached and is in progress again in the feed
  (it was started again under the same id), on a first page that links to a second.
\<close>

definition rerun_session :: session where
  "rerun_session url =
     (if url = SERVER_BUILD_URL
      then Inr \<lparr>status_code = 200, res_text = [],
                body = JsonRuns [scenario_run 5 ''in_progress'' None ''X''],
                links_next = Some ''page2''\<rparr>
      else if url = ''page2'' then Inr scenario_page2
      else Inl RequestError)"

definition rerun_cache :: run_cache where
  "rerun_cache =
     [(5, tag_run SERVER_BUILD_URL (scenario_run 5 ''completed'' (Some ''success'') ''X''))]"

text \<open>
  The caches of the scenarios after a synchronization: the four runs of the two scenario
  pages; and for the run that was started again, the cache after a first and after a
  second synchronization.
\<close>

definition scenario_synced :: run_cache where
  "scenario_synced =
     [(6, tag_run SERVER_BUILD_URL (scenario_run 6 ''completed'' (Some ''success'') ''X'')),
      (5, tag_run SERVER_BUILD_URL (scenario_run 5 ''in_progress'' None ''X'')),
      (4, tag_run SERVER_BUILD_URL (scenario_run 4 ''completed'' (Some ''success'') ''Z'')),
      (3, tag_run SERVER_BUILD_URL (scenario_run 3 ''completed'' (Some ''failure'') ''X''))]"

definition rerun_first :: run_cache where
  "rerun_first =
     [(5, tag_run SERVER_BUILD_URL (scenario_run 5 ''in_progress'' None ''X''))]"

definition rerun_second :: run_cache where
  "rerun_second =
     [(5, tag_run SERVER_BUILD_URL (scenario_run 5 ''in_progress'' None ''X'')),
      (4, tag_run SERVER_BUILD_URL (scenario_run 4 ''completed'' (Some ''success'') ''Z'')),
      (3, tag_run SERVER_BUILD_URL (scenario_run 3 ''completed'' (Some ''failure'') ''X''))]"

text \<open>A feed that lists the run 5 twice, in progress on the first page and completed on the second.\<close>

definition duplicate_session :: session where
  "duplicate_session url =
     (if url = SERVER_BUILD_URL
      then Inr \<lparr>status_code = 200, res_text = [],
                body = JsonRuns [scenario_run 5 ''in_progress'' None ''X''],
                links_next = Some ''page2''\<rparr>
      else if url = ''page2''
      then Inr \<lparr>status_code = 200, res_text = [],
                body = JsonRuns [scenario_run 5 ''completed'' (Some ''success'') ''X''],
                links_next = None\<rparr>
      else Inl RequestError)"

text \<open>Repositories: a fresh clone with head \<open>X\<close>, and one whose head is \<open>Z\<close>.\<close>

definition scenario_repo :: repo where
  "scenario_repo = \<lparr>head_commit = scenario_X, cache_file = None\<rparr>"

definition scenario_repo_Z :: repo where
  "scenario_repo_Z = \<lparr>head_commit = scenario_Z, cache_file = None\<rparr>"

text \<open>A commit on top of \<open>X\<close> whose tree has lost the tracked path \<open>conf\<close>.\<close>

definition scenario_N :: commit where
  "scenario_N = Commit ''N'' [''app'' \<mapsto> ''a1''] [scenario_X]"

section \<open>Properties of the commit matcher\<close>

lemma hash_files_eq:
  "hash_files t fs =
     (if set fs \<subseteq> dom t then Inr (map (\<lambda>path. the (t path)) fs) else Inl KeyError)"
  by (induction fs) (auto split: option.splits)

lemma hash_files_Inr_iff:
  "hash_files t fs = Inr w \<longleftrightarrow> set fs \<subseteq> dom t \<and> map (\<lambda>path. the (t path)) fs = w"
  by (simp add: hash_files_eq)

lemma matches_hash_files: "matches fs w c \<longleftrightarrow> hash_files (tree c) fs = Inr w"
  by (simp add: matches_def hash_files_Inr_iff)

lemma find_commits_unfold:
  "find_commits c fs w =
     (if matches fs w c
      then hexsha c # concat (map (\<lambda>parent. find_commits parent fs w) (parents c))
      else [])"
  by (cases c) (auto simp: matches_hash_files split: sum.splits)

lemma find_commits_calls_unfold:
  "find_commits_calls c fs w =
     c # (if matches fs w c
          then concat (map (\<lambda>parent. find_commits_calls parent fs w) (parents c))
          else [])"
  by (cases c) (auto simp: matches_hash_files split: sum.splits)

lemma chain_yields:
  "match_chain fs w c d \<Longrightarrow> hexsha d \<in> set (find_commits c fs w)"
proof (induction rule: match_chain.induct)
  case (chain_self c)
  then show ?case by (subst find_commits_unfold) simp
next
  case (chain_parent c p d)
  then show ?case by (subst find_commits_unfold) auto
qed

lemma yields_chain:
  "h \<in> set (find_commits c fs w) \<Longrightarrow> \<exists>d. match_chain fs w c d \<and> hexsha d = h"
proof (induction c fs w rule: find_commits.induct)
  case (1 sha t ps fs w)
  let ?c = "Commit sha t ps"
  from "1.prems" have m: "matches fs w ?c"
    by (subst (asm) find_commits_unfold) (auto split: if_splits)
  then have hw: "hash_files t fs = Inr w" by (simp add: matches_hash_files)
  from "1.prems" m
  have "h = sha \<or> (\<exists>p \<in> set ps. h \<in> set (find_commits p fs w))"
    by (subst (asm) find_commits_unfold) auto
  then show ?case
  proof
    assume "h = sha"
    with m show ?thesis using chain_self[of fs w ?c] by auto
  next
    assume "\<exists>p \<in> set ps. h \<in> set (find_commits p fs w)"
    then obtain p where p: "p \<in> set ps" "h \<in> set (find_commits p fs w)" by blast
    from "1.IH"[OF hw _ p(1) p(2)] obtain d where "match_chain fs w p d" "hexsha d = h"
      by auto
    with m p(1) show ?thesis using chain_parent[of fs w ?c p d] by auto
  qed
qed

lemma calls_pruned:
  "d \<in> set (find_commits_calls c fs w) \<Longrightarrow>
     d = c \<or> (\<exists>e. match_chain fs w c e \<and> d \<in> set (parents e))"
proof (induction c fs w rule: find_commits_calls.induct)
  case (1 sha t ps fs w)
  let ?c = "Commit sha t ps"
  show ?case
  proof (cases "d = ?c")
    case True then show ?thesis by simp
  next
    case False
    with "1.prems" have m: "matches fs w ?c"
      by (subst (asm) find_commits_calls_unfold) (auto split: if_splits)
    then have hw: "hash_files t fs = Inr w" by (simp add: matches_hash_files)
    from "1.prems" False m
    obtain p where p: "p \<in> set ps" "d \<in> set (find_commits_calls p fs w)"
      by (subst (asm) find_commits_calls_unfold) auto
    from "1.IH"[OF hw _ p(1) p(2)]
    have "d = p \<or> (\<exists>e. match_chain fs w p e \<and> d \<in> set (parents e))" by simp
    then show ?thesis
    proof
      assume "d = p"
      with m p(1) show ?thesis using chain_self[of fs w ?c] by auto
    next
      assume "\<exists>e. match_chain fs w p e \<and> d \<in> set (parents e)"
      then obtain e where "match_chain fs w p e" "d \<in> set (parents e)" by blast
      with m p(1) show ?thesis using chain_parent[of fs w ?c p e] by auto
    qed
  qed
qed

lemmas scenario_defs =
  scenario_files_def scenario_wanted_def scenario_R_def scenario_Y_def scenario_Z_def
  scenario_X_def scenario_M_def scenario_N_def

lemmas scenario_run_defs =
  scenario_profile_def server_profile_def SERVER_BUILD_URL_def ASSETS_BUILD_URL_def
  scenario_run_def tag_run_def scenario_cache_def scenario_page1_def scenario_page2_def
  scenario_artifacts_def scenario_repo_def scenario_repo_Z_def scenario_synced_def
  rerun_cache_def rerun_first_def rerun_second_def

lemmas scenario_session_defs =
  scenario_session_def outage_session_def flaky_session_def broken_session_def
  rerun_session_def duplicate_session_def

text \<open>
  C1 (as stated, refuted). The claim makes membership in the matched set equivalent to
  matching for every commit reachable from the head, and wants \<open>Y\<close> in the set for the
  linear history \<open>X\<close>, \<open>Z\<close>, \<open>Y\<close>. In that history \<open>Y\<close> is reachable from \<open>X\<close> and
  its hash tuple is the wanted one, yet \<open>find_commits\<close> stops at \<open>Z\<close> and never yields
  the id of \<open>Y\<close>.
\<close>

theorem find_commits_misses_matching_ancestor:
  "reachable scenario_X scenario_Y
   \<and> matches scenario_files scenario_wanted scenario_Y
   \<and> hexsha scenario_Y \<notin> set (find_commits scenario_X scenario_files scenario_wanted)"
proof -
  have "reachable scenario_Z scenario_Y"
    by (rule reachable_parent[of scenario_Y]) (simp_all add: scenario_Z_def reachable_self)
  then have "reachable scenario_X scenario_Y"
    by (rule reachable_parent[rotated]) (simp add: scenario_X_def)
  then show ?thesis
    by (simp add: scenario_defs matches_def)
qed

text \<open>
  C1 (amended). A commit id is in the matched set exactly when it is the id of a commit
  reached from the starting commit along a chain of parent links on which every commit,
  the starting commit and the reached one included, has all tracked paths in its tree
  and the wanted hash tuple in path order.
\<close>

theorem find_commits_iff_match_chain:
  "h \<in> set (find_commits c fs w) \<longleftrightarrow> (\<exists>d. match_chain fs w c d \<and> hexsha d = h)"
  using chain_yields yields_chain by blast

theorem find_commits_iff_match_chain_witness:
  "set (find_commits scenario_X scenario_files scenario_wanted) = {''X''}
   \<and> \<not> (\<exists>d. match_chain scenario_files scenario_wanted scenario_X d \<and> hexsha d = ''Y'')
   \<and> set (find_commits scenario_M scenario_files scenario_wanted) = {''M'', ''Y'', ''R''}
   \<and> (\<exists>d. match_chain scenario_files scenario_wanted scenario_M d \<and> hexsha d = ''R'')
   \<and> \<not> (\<exists>d. match_chain scenario_files scenario_wanted scenario_M d \<and> hexsha d = ''Z'')"
  using find_commits_iff_match_chain[of "''R''" scenario_M scenario_files scenario_wanted]
    find_commits_iff_match_chain[of "''Z''" scenario_M scenario_files scenario_wanted]
    find_commits_iff_match_chain[of "''Y''" scenario_X scenario_files scenario_wanted]
  by (simp add: scenario_defs)

text \<open>
  C2. Pruning: a call of \<open>find_commits\<close> on a commit that does not match (a tracked path
  is absent from its tree, or its hash tuple differs from the wanted one) yields nothing
  and enters no other commit: its call log is the commit alone. Over a whole traversal,
  every commit entered is the starting commit or a parent of a commit at the end of a
  chain of matching commits, so no parent of a commit that failed the match is entered
  through it.
\<close>

theorem find_commits_prunes:
  "(\<not> matches fs w c \<longrightarrow> find_commits c fs w = [] \<and> find_commits_calls c fs w = [c])
   \<and> (\<forall>d \<in> set (find_commits_calls c fs w).
        d = c \<or> (\<exists>e. match_chain fs w c e \<and> d \<in> set (parents e)))"
proof
  show "\<not> matches fs w c \<longrightarrow> find_commits c fs w = [] \<and> find_commits_calls c fs w = [c]"
    by (subst find_commits_unfold, subst find_commits_calls_unfold) simp
  show "\<forall>d \<in> set (find_commits_calls c fs w).
        d = c \<or> (\<exists>e. match_chain fs w c e \<and> d \<in> set (parents e))"
    using calls_pruned by blast
qed

theorem find_commits_prunes_witness:
  "\<not> matches scenario_files scenario_wanted scenario_Z
   \<and> find_commits scenario_Z scenario_files scenario_wanted = []
   \<and> find_commits_calls scenario_Z scenario_files scenario_wanted = [scenario_Z]
   \<and> find_commits_calls scenario_X scenario_files scenario_wanted = [scenario_X, scenario_Z]
   \<and> scenario_Y \<in> set (parents scenario_Z)"
  using find_commits_prunes[of scenario_files scenario_wanted scenario_Z]
    find_commits_prunes[of scenario_files scenario_wanted scenario_X]
  by (simp add: scenario_defs matches_def)

section \<open>Properties of the run locator\<close>

lemma scan_runs_found:
  "fst (scan_runs p w rs found) =
     (case found of
        Some f \<Rightarrow> Some f
      | None \<Rightarrow> find (\<lambda>r. considered p w r \<and> successful r) rs)"
  by (induction rs arbitrary: found)
     (simp_all add: considered_def successful_def split_beta split: option.splits)

lemma scan_runs_filter:
  "scan_runs p w (filter (considered p w) rs) found = scan_runs p w rs found"
  by (induction rs arbitrary: found) (auto simp: considered_def split: prod.splits)

lemma find_workflow_run_result:
  "fst (find_workflow_run profile runs wanted_commits) =
     (case find (\<lambda>r. considered profile wanted_commits r \<and> successful r) (map snd runs) of
        None \<Rightarrow> Inl (DeployError ''Did not find successful matching workflow run.'')
      | Some r \<Rightarrow> Inr r)"
proof -
  have "fst (scan_runs profile wanted_commits (map snd runs) None) =
        find (\<lambda>r. considered profile wanted_commits r \<and> successful r) (map snd runs)"
    by (simp add: scan_runs_found)
  then show ?thesis
    by (auto simp: find_workflow_run_def split: prod.splits option.splits)
qed

text \<open>
  C3. The locator scans the runs in the iteration order of the cache and returns the
  first run that is considered (head commit in the wanted set, feed tag equal to the
  profile's feed) and successful (status completed, conclusion success); runs that are
  not considered, pending runs and failed runs before it are passed over. When there is
  no such run it raises the \<open>DeployError\<close> for a missing run.
\<close>

theorem find_workflow_run_first_success:
  "fst (find_workflow_run profile runs wanted_commits) =
     (case find (\<lambda>r. considered profile wanted_commits r \<and> successful r) (map snd runs) of
        None \<Rightarrow> Inl (DeployError ''Did not find successful matching workflow run.'')
      | Some r \<Rightarrow> Inr r)"
  by (rule find_workflow_run_result)

theorem find_workflow_run_first_success_witness:
  "fst (find_workflow_run scenario_profile scenario_cache {''X''}) =
     Inr (tag_run SERVER_BUILD_URL (scenario_run 5 ''completed'' (Some ''success'') ''X''))
   \<and> fst (find_workflow_run scenario_profile (take 4 scenario_cache) {''X''}) =
     Inl (DeployError ''Did not find successful matching workflow run.'')"
  using find_workflow_run_first_success[of scenario_profile scenario_cache "{''X''}"]
    find_workflow_run_first_success[of scenario_profile "take 4 scenario_cache" "{''X''}"]
  by (simp add: scenario_run_defs scenario_defs considered_def successful_def)

text \<open>
  C9. Two caches whose considered runs (head commit wanted, feed tag of the profile) are
  the same in the same order give the same result of the locator, printed lines
  included; in particular an entry that is not considered can be added or removed
  anywhere without changing the result.
\<close>

theorem find_workflow_run_noninterference:
  "(filter (considered profile wanted_commits) (map snd runs1) =
      filter (considered profile wanted_commits) (map snd runs2)
    \<longrightarrow> find_workflow_run profile runs1 wanted_commits =
        find_workflow_run profile runs2 wanted_commits)
   \<and> (\<not> considered profile wanted_commits (snd entry)
    \<longrightarrow> find_workflow_run profile (before @ entry # after) wanted_commits =
        find_workflow_run profile (before @ after) wanted_commits)"
proof -
  have eq: "find_workflow_run profile rs wanted_commits = find_workflow_run profile rs' wanted_commits"
    if "filter (considered profile wanted_commits) (map snd rs) =
        filter (considered profile wanted_commits) (map snd rs')" for rs rs'
  proof -
    have "scan_runs profile wanted_commits (map snd rs) None =
          scan_runs profile wanted_commits (map snd rs') None"
      using that scan_runs_filter[of profile wanted_commits "map snd rs" None]
        scan_runs_filter[of profile wanted_commits "map snd rs'" None]
      by simp
    then show ?thesis by (simp add: find_workflow_run_def)
  qed
  show ?thesis
  proof (intro conjI impI)
    assume "filter (considered profile wanted_commits) (map snd runs1) =
      filter (considered profile wanted_commits) (map snd runs2)"
    then show "find_workflow_run profile runs1 wanted_commits =
        find_workflow_run profile runs2 wanted_commits" by (rule eq)
  next
    assume "\<not> considered profile wanted_commits (snd entry)"
    then show "find_workflow_run profile (before @ entry # after) wanted_commits =
        find_workflow_run profile (before @ after) wanted_commits"
      by (intro eq) simp
  qed
qed

theorem find_workflow_run_noninterference_witness:
  "filter (considered scenario_profile {''X''}) (map snd scenario_cache) =
     filter (considered scenario_profile {''X''})
       (map snd [scenario_cache ! 0, scenario_cache ! 1, scenario_cache ! 4, scenario_cache ! 5])
   \<and> find_workflow_run scenario_profile scenario_cache {''X''} =
     find_workflow_run scenario_profile
       [scenario_cache ! 0, scenario_cache ! 1, scenario_cache ! 4, scenario_cache ! 5] {''X''}
   \<and> \<not> considered scenario_profile {''X''} (snd (scenario_cache ! 2))
   \<and> find_workflow_run scenario_profile
       (take 2 scenario_cache @ scenario_cache ! 2 # drop 3 scenario_cache) {''X''} =
     find_workflow_run scenario_profile (take 2 scenario_cache @ drop 3 scenario_cache) {''X''}"
proof -
  have f: "filter (considered scenario_profile {''X''}) (map snd scenario_cache) =
     filter (considered scenario_profile {''X''})
       (map snd [scenario_cache ! 0, scenario_cache ! 1, scenario_cache ! 4, scenario_cache ! 5])"
    by (simp add: scenario_run_defs considered_def)
  have n: "\<not> considered scenario_profile {''X''} (snd (scenario_cache ! 2))"
    by (simp add: scenario_run_defs considered_def)
  show ?thesis
    using f n
      find_workflow_run_noninterference[of scenario_profile "{''X''}" scenario_cache
        "[scenario_cache ! 0, scenario_cache ! 1, scenario_cache ! 4, scenario_cache ! 5]"
        "scenario_cache ! 2" "take 2 scenario_cache" "drop 3 scenario_cache"]
    by blast
qed

section \<open>Properties of the artifact resolver\<close>

lemma find_artifact_eq:
  "find_artifact as nm =
     (case find (\<lambda>a. name a = nm) as of
        None \<Rightarrow> (Inl (DeployError (''Did not find artifact '' @ nm @ ''.'')), [])
      | Some a \<Rightarrow> (Inr (archive_download_url a), (if expired a then [PrintExpired] else [])))"
  by (induction as) auto

text \<open>
  C7. With the artifact listing of the run fetched, the resolver returns the download
  URL of the first entry whose name is the given artifact name, after the one request
  and with the line "Artifact expired." printed exactly when that entry is expired;
  when no entry has the name it raises the \<open>DeployError\<close> for a missing artifact.
\<close>

theorem artifact_url_resolves:
  "session (artifacts_url run) = Inr res \<Longrightarrow> body res = JsonArtifacts as \<Longrightarrow>
   artifact_url session run nm =
     (case find (\<lambda>a. name a = nm) as of
        None \<Rightarrow>
          (Inl (DeployError (''Did not find artifact '' @ nm @ ''.'')),
           [HttpGet (artifacts_url run)])
      | Some a \<Rightarrow>
          (Inr (archive_download_url a),
           HttpGet (artifacts_url run) # (if expired a then [PrintExpired] else [])))"
  by (simp add: artifact_url_def find_artifact_eq split: option.splits)

theorem artifact_url_resolves_witness:
  "scenario_session (artifacts_url (snd (scenario_cache ! 4))) = Inr scenario_artifacts
   \<and> body scenario_artifacts = JsonArtifacts
        [\<lparr>name = ''lila-assets'', expired = False, archive_download_url = ''zip/assets''\<rparr>,
         \<lparr>name = ''lila-server'', expired = True, archive_download_url = ''zip/server''\<rparr>]
   \<and> artifact_url scenario_session (snd (scenario_cache ! 4)) ''lila-server'' =
       (Inr ''zip/server'', [HttpGet ''artifacts/X'', PrintExpired])
   \<and> artifact_url scenario_session (snd (scenario_cache ! 4)) ''lila-assets'' =
       (Inr ''zip/assets'', [HttpGet ''artifacts/X''])
   \<and> artifact_url scenario_session (snd (scenario_cache ! 4)) ''lila'' =
       (Inl (DeployError ''Did not find artifact lila.''), [HttpGet ''artifacts/X''])"
proof -
  have s: "scenario_session (artifacts_url (snd (scenario_cache ! 4))) = Inr scenario_artifacts"
    by (simp add: scenario_session_def scenario_run_defs)
  have b: "body scenario_artifacts = JsonArtifacts
        [\<lparr>name = ''lila-assets'', expired = False, archive_download_url = ''zip/assets''\<rparr>,
         \<lparr>name = ''lila-server'', expired = True, archive_download_url = ''zip/server''\<rparr>]"
    by (simp add: scenario_artifacts_def)
  have u: "artifacts_url (snd (scenario_cache ! 4)) = ''artifacts/X''"
    by (simp add: scenario_run_defs)
  show ?thesis
    using s b
      artifact_url_resolves[of scenario_session "snd (scenario_cache ! 4)" scenario_artifacts _
        "''lila-server''"]
      artifact_url_resolves[of scenario_session "snd (scenario_cache ! 4)" scenario_artifacts _
        "''lila-assets''"]
      artifact_url_resolves[of scenario_session "snd (scenario_cache ! 4)" scenario_artifacts _
        "''lila''"]
    by (simp add: u)
qed

section \<open>Properties of the deploy operation\<close>

text \<open>
  C8. When a tracked path of the profile is absent from the tree of the commit to
  deploy, \<open>deploy\<close> raises the \<open>DeployError\<close> for a missing required file at once: the
  only event is the first printed line, so no request is made and no matching commits
  are reported, and the repository with its cache file is unchanged.
\<close>

theorem deploy_missing_file:
  "\<not> set (files profile) \<subseteq> dom (tree commit) \<Longrightarrow>
   deploy_wanted_commits profile repo commit =
     Inl (DeployError ''Commit is missing a required file.'')
   \<and> deploy profile session repo commit =
     Some (Inl (DeployError ''Commit is missing a required file.''), repo, [PrintPreparing])"
  by (simp add: deploy_def deploy_wanted_commits_def hash_files_eq)

theorem deploy_missing_file_witness:
  "\<not> set (files scenario_profile) \<subseteq> dom (tree scenario_N)
   \<and> deploy scenario_profile scenario_session scenario_repo scenario_N =
     Some (Inl (DeployError ''Commit is missing a required file.''), scenario_repo,
           [PrintPreparing])"
proof -
  have h: "\<not> set (files scenario_profile) \<subseteq> dom (tree scenario_N)"
    by (simp add: scenario_profile_def scenario_defs)
  show ?thesis
    using h deploy_missing_file[OF h, of scenario_repo scenario_session] by simp
qed

lemma deploy_Inr_found:
  assumes "deploy profile session repo commit = Some (Inr (run, url), repo', evs)"
  shows "\<exists>wanted. deploy_wanted_commits profile repo commit = Inr wanted
           \<and> head_commit_id run \<in> wanted"
proof -
  from assms obtain wanted where w: "deploy_wanted_commits profile repo commit = Inr wanted"
    by (auto simp: deploy_def split: sum.splits)
  from assms w have "\<exists>runs evs2. find_workflow_run profile runs wanted = (Inr run, evs2)"
    by (auto simp: deploy_def split: sum.splits option.splits prod.splits)
  then obtain runs evs2 where "find_workflow_run profile runs wanted = (Inr run, evs2)"
    by blast
  then have "fst (find_workflow_run profile runs wanted) = Inr run" by simp
  then have "find (\<lambda>r. considered profile wanted r \<and> successful r) (map snd runs) = Some run"
    by (simp add: find_workflow_run_result split: option.splits)
  then have "considered profile wanted run" by (auto simp: find_Some_iff)
  with w show ?thesis by (auto simp: considered_def)
qed

text \<open>
  C10. Whatever commit is deployed, the wanted tuple comes from the tree of that commit
  and the traversal starts at the head commit of the repository. So when the head
  commit does not match the wanted tuple, the matched set is empty (the deployed commit
  is not in it either) and \<open>deploy\<close> cannot end with a selected run.
\<close>

theorem deploy_traverses_from_head:
  assumes "hash_files (tree commit) (files profile) = Inr wanted_hash"
  shows "deploy_wanted_commits profile repo commit =
           Inr (set (find_commits (head_commit repo) (files profile) wanted_hash))
         \<and> (\<not> matches (files profile) wanted_hash (head_commit repo) \<longrightarrow>
              deploy_wanted_commits profile repo commit = Inr {}
              \<and> (\<forall>run url repo' evs.
                   deploy profile session repo commit \<noteq> Some (Inr (run, url), repo', evs)))"
proof (intro conjI impI allI)
  show 1: "deploy_wanted_commits profile repo commit =
           Inr (set (find_commits (head_commit repo) (files profile) wanted_hash))"
    using assms by (simp add: deploy_wanted_commits_def)
  assume "\<not> matches (files profile) wanted_hash (head_commit repo)"
  then have "find_commits (head_commit repo) (files profile) wanted_hash = []"
    by (subst find_commits_unfold) simp
  with 1 show 2: "deploy_wanted_commits profile repo commit = Inr {}" by simp
  fix run url repo' evs
  show "deploy profile session repo commit \<noteq> Some (Inr (run, url), repo', evs)"
    using deploy_Inr_found[of profile session repo commit run url repo' evs] 2 by auto
qed

theorem deploy_traverses_from_head_witness:
  "hash_files (tree scenario_Y) (files scenario_profile) = Inr scenario_wanted
   \<and> \<not> matches (files scenario_profile) scenario_wanted (head_commit scenario_repo_Z)
   \<and> reachable (head_commit scenario_repo_Z) scenario_Y
   \<and> matches (files scenario_profile) scenario_wanted scenario_Y
   \<and> deploy_wanted_commits scenario_profile scenario_repo_Z scenario_Y = Inr {}"
proof -
  have h: "hash_files (tree scenario_Y) (files scenario_profile) = Inr scenario_wanted"
    by (simp add: scenario_profile_def scenario_defs)
  have n: "\<not> matches (files scenario_profile) scenario_wanted (head_commit scenario_repo_Z)"
    by (simp add: scenario_profile_def scenario_repo_Z_def scenario_defs matches_def)
  have r: "reachable (head_commit scenario_repo_Z) scenario_Y"
    by (rule reachable_parent[of scenario_Y])
       (simp_all add: scenario_repo_Z_def scenario_Z_def reachable_self)
  have m: "matches (files scenario_profile) scenario_wanted scenario_Y"
    by (simp add: matches_hash_files h)
  show ?thesis
    using h n r m deploy_traverses_from_head[OF h, of scenario_repo_Z scenario_session]
    by blast
qed


section \<open>Properties of the run cache synchronizer\<close>

subsection \<open>Dictionaries and the merge of a page\<close>

lemma map_of_dict_set: "map_of (dict_set d k v) = (map_of d)(k \<mapsto> v)"
  by (induction d) auto

lemma dict_set_same: "map_of d k = Some v \<Longrightarrow> dict_set d k v = d"
  by (induction d) (auto split: if_splits)

lemma store_runs_Nil [simp]: "store_runs url d [] = d"
  by (simp add: store_runs_def)

lemma store_runs_Cons [simp]:
  "store_runs url d (r # rs) = store_runs url (dict_set d (run_id r) (tag_run url r)) rs"
  by (simp add: store_runs_def)

lemma store_runs_append:
  "store_runs url d (xs @ ys) = store_runs url (store_runs url d xs) ys"
  by (simp add: store_runs_def)

lemma map_of_store_runs_other:
  "k \<notin> run_id ` set rs \<Longrightarrow> map_of (store_runs url d rs) k = map_of d k"
  by (induction rs arbitrary: d) (auto simp: map_of_dict_set)

lemma dom_store_runs:
  "dom (map_of (store_runs url d rs)) = dom (map_of d) \<union> run_id ` set rs"
  by (induction rs arbitrary: d) (auto simp: map_of_dict_set)

lemma map_of_store_runs_distinct:
  "distinct (map run_id rs) \<Longrightarrow> r \<in> set rs \<Longrightarrow>
   map_of (store_runs url d rs) (run_id r) = Some (tag_run url r)"
proof (induction rs arbitrary: d)
  case Nil
  then show ?case by simp
next
  case (Cons a rs)
  show ?case
  proof (cases "r = a")
    case True
    with Cons.prems have "run_id a \<notin> run_id ` set rs" by auto
    then show ?thesis using True
      by (simp add: map_of_store_runs_other map_of_dict_set)
  next
    case False
    with Cons show ?thesis by simp
  qed
qed

lemma known_completed_stored:
  "map_of D (run_id r) = Some (tag_run url r) \<Longrightarrow>
   known_completed D r \<longleftrightarrow> status r = ''completed''"
  by (simp add: known_completed_def tag_run_def)

lemma known_completed_cong:
  "map_of d (run_id r) = map_of d' (run_id r) \<Longrightarrow> known_completed d r = known_completed d' r"
  by (simp add: known_completed_def)

lemma merge_runs_data: "fst (merge_runs url rs (d, n, sy)) = store_runs url d rs"
  by (induction rs arbitrary: d n sy) simp_all

lemma merge_runs_agree:
  "\<forall>r\<in>set rs. map_of D (run_id r) = Some (tag_run url r) \<Longrightarrow>
   \<exists>k'. merge_runs url rs (D, k, sy) = (D, k', sy \<or> (\<exists>r\<in>set rs. known_completed D r))"
proof (induction rs arbitrary: k sy)
  case Nil
  then show ?case by simp
next
  case (Cons a rs)
  then have same: "dict_set D (run_id a) (tag_run url a) = D"
    by (simp add: dict_set_same)
  from Cons.prems have "\<forall>r\<in>set rs. map_of D (run_id r) = Some (tag_run url r)" by simp
  from Cons.IH[OF this, of "if known_completed D a then k else k + 1"
      "if known_completed D a then True else sy"]
  obtain k' where "merge_runs url rs (D, (if known_completed D a then k else k + 1),
      (if known_completed D a then True else sy)) =
    (D, k', (if known_completed D a then True else sy) \<or> (\<exists>r\<in>set rs. known_completed D r))"
    by blast
  then have "merge_runs url (a # rs) (D, k, sy) =
    (D, k', sy \<or> (\<exists>r\<in>set (a # rs). known_completed D r))"
    by (auto simp: same)
  then show ?case by blast
qed

lemma merge_runs_synced_distinct:
  "distinct (map run_id rs) \<Longrightarrow> merge_runs url rs (d, n, sy) = (d', n', sy') \<Longrightarrow> sy' \<Longrightarrow>
   sy \<or> (\<exists>r\<in>set rs. known_completed d r)"
proof (induction rs arbitrary: d n sy)
  case Nil
  then show ?case by simp
next
  case (Cons a rs)
  let ?d = "dict_set d (run_id a) (tag_run url a)"
  from Cons.prems(2)
  have m: "merge_runs url rs (?d, (if known_completed d a then n else n + 1),
             (if known_completed d a then True else sy)) = (d', n', sy')" by simp
  from Cons.prems(1) have dist: "distinct (map run_id rs)" by simp
  from Cons.prems(1) have "run_id a \<notin> run_id ` set rs" by simp
  then have fresh: "\<forall>r\<in>set rs. run_id r \<noteq> run_id a" by (metis imageI)
  from Cons.IH[OF dist m Cons.prems(3)]
  have "(if known_completed d a then True else sy) \<or> (\<exists>r\<in>set rs. known_completed ?d r)" .
  moreover have "known_completed ?d r = known_completed d r" if "r \<in> set rs" for r
    using fresh that by (intro known_completed_cong) (simp add: map_of_dict_set)
  ultimately show ?case by (auto split: if_splits)
qed

lemma requests_append: "requests (xs @ ys) = requests xs @ requests ys"
  by (induction xs rule: requests.induct) simp_all

lemma fetched_runs_Nil [simp]: "fetched_runs s [] = []"
  by (simp add: fetched_runs_def)

lemma fetched_runs_Cons [simp]: "fetched_runs s (u # us) = page_runs s u @ fetched_runs s us"
  by (simp add: fetched_runs_def)

subsection \<open>Induction over the pages that the loop fetches\<close>

lemma fetch_loop_induct [consumes 1, case_names get_raises bad_status json_raises stop continue]:
  assumes run: "fetch_loop p s url0 d0 n0 = Some y0"
    and get_raises: "\<And>url d n e. s url = Inl e \<Longrightarrow>
           P url d n (Some e, d, n, [PrintFetching, HttpGet url])"
    and bad_status: "\<And>url d n res. s url = Inr res \<Longrightarrow> status_code res \<noteq> 200 \<Longrightarrow>
           P url d n (None, d, n,
             [PrintFetching, HttpGet url, PrintUnexpected (status_code res) (res_text res)])"
    and json_raises: "\<And>url d n res e. s url = Inr res \<Longrightarrow> status_code res = 200 \<Longrightarrow>
           json_workflow_runs (body res) = Inl e \<Longrightarrow>
           P url d n (Some e, d, n, [PrintFetching, HttpGet url])"
    and stop: "\<And>url d n res rs d' n' synced. s url = Inr res \<Longrightarrow> status_code res = 200 \<Longrightarrow>
           json_workflow_runs (body res) = Inr rs \<Longrightarrow>
           merge_runs (workflow_url p) rs (d, n, False) = (d', n', synced) \<Longrightarrow>
           links_next res = None \<or> synced \<Longrightarrow>
           P url d n (None, d', n', [PrintFetching, HttpGet url])"
    and continue: "\<And>url d n res rs d' n' next_url e D m evs.
           s url = Inr res \<Longrightarrow> status_code res = 200 \<Longrightarrow>
           json_workflow_runs (body res) = Inr rs \<Longrightarrow>
           merge_runs (workflow_url p) rs (d, n, False) = (d', n', False) \<Longrightarrow>
           links_next res = Some next_url \<Longrightarrow>
           fetch_loop p s next_url d' n' = Some (e, D, m, evs) \<Longrightarrow>
           P next_url d' n' (e, D, m, evs) \<Longrightarrow>
           P url d n (e, D, m, PrintFetching # HttpGet url # evs)"
  shows "P url0 d0 n0 y0"
proof -
  have "p' = p \<longrightarrow> s' = s \<longrightarrow> (fetch_loop p s url d n = Some y \<and> P url d n y)"
    if "fetch_loop p' s' url d n = Some y" for p' s' url d n y
    using that
  proof (induction p' s' url d n y rule: fetch_loop.raw_induct[rotated 1, consumes 1, case_names 1])
    case (1 f p' s' url d n y)
    show ?case
    proof (intro impI)
      assume eq: "p' = p" "s' = s"
      note body = 1(2)[unfolded eq]
      show "fetch_loop p s url d n = Some y \<and> P url d n y"
      proof (cases "s url")
        case (Inl e)
        with body have "y = (Some e, d, n, [PrintFetching, HttpGet url])" by simp
        with Inl get_raises show ?thesis by (subst fetch_loop.simps) simp
      next
        case (Inr res)
        show ?thesis
        proof (cases "status_code res \<noteq> 200")
          case True
          with body Inr have "y = (None, d, n,
             [PrintFetching, HttpGet url, PrintUnexpected (status_code res) (res_text res)])"
            by simp
          with Inr True bad_status show ?thesis by (subst fetch_loop.simps) simp
        next
          case False
          then have ok: "status_code res = 200" by simp
          show ?thesis
          proof (cases "json_workflow_runs (body res)")
            case (Inl e)
            with body Inr ok have "y = (Some e, d, n, [PrintFetching, HttpGet url])" by simp
            with Inr ok Inl json_raises show ?thesis by (subst fetch_loop.simps) simp
          next
            case rs: (Inr rs)
            obtain d' n' synced where
              m: "merge_runs (workflow_url p) rs (d, n, False) = (d', n', synced)"
              by (cases "merge_runs (workflow_url p) rs (d, n, False)") auto
            show ?thesis
            proof (cases "links_next res = None \<or> synced")
              case True
              with body Inr ok rs m have "y = (None, d', n', [PrintFetching, HttpGet url])"
                by (auto split: option.splits)
              moreover have "P url d n (None, d', n', [PrintFetching, HttpGet url])"
                using stop[OF Inr ok rs m True] .
              moreover have "fetch_loop p s url d n = Some (None, d', n', [PrintFetching, HttpGet url])"
                using Inr ok rs m True by (subst fetch_loop.simps) (auto split: option.splits)
              ultimately show ?thesis by simp
            next
              case False
              then obtain next_url where nx: "links_next res = Some next_url" and ns: "\<not> synced"
                by auto
              from body Inr ok rs m nx ns
              obtain e D k evs where f: "f p s next_url d' n' = Some (e, D, k, evs)"
                and y: "y = (e, D, k, PrintFetching # HttpGet url # evs)"
                by (auto simp: bind_eq_Some_conv)
              from 1(1)[OF f]
              have r: "fetch_loop p s next_url d' n' = Some (e, D, k, evs)"
                and ih: "P next_url d' n' (e, D, k, evs)" by simp_all
              have "P url d n (e, D, k, PrintFetching # HttpGet url # evs)"
                using continue[OF Inr ok rs _ nx r ih] m ns by simp
              moreover have "fetch_loop p s url d n = Some (e, D, k, PrintFetching # HttpGet url # evs)"
                using Inr ok rs m nx ns r by (subst fetch_loop.simps) simp
              ultimately show ?thesis using y by simp
            qed
          qed
        qed
      qed
    qed
  qed
  from this[OF run] show ?thesis by simp
qed

lemma fetch_loop_data:
  assumes "fetch_loop p s url d n = Some (e, D, m, evs)"
  shows "D = store_runs (workflow_url p) d (fetched_runs s (requests evs))"
  using assms
proof (induction url d n "(e, D, m, evs)" arbitrary: e D m evs rule: fetch_loop_induct)
  case (get_raises url d n e)
  then show ?case by (simp add: page_runs_def)
next
  case (bad_status url d n res)
  then show ?case by (simp add: page_runs_def)
next
  case (json_raises url d n res e)
  then show ?case by (simp add: page_runs_def)
next
  case (stop url d n res rs d' n' synced)
  from stop(4) have "d' = store_runs (workflow_url p) d rs"
    using merge_runs_data[of "workflow_url p" rs d n False] by simp
  with stop show ?case by (simp add: page_runs_def)
next
  case (continue url d n res rs d' n' next_url e D m evs)
  from continue(4) have "d' = store_runs (workflow_url p) d rs"
    using merge_runs_data[of "workflow_url p" rs d n False] by simp
  with continue show ?case by (simp add: page_runs_def store_runs_append)
qed

lemma fetch_loop_requests_nonempty:
  assumes "fetch_loop p s url d n = Some (e, D, m, evs)"
  shows "requests evs \<noteq> [] \<and> hd (requests evs) = url"
  using assms
  by (induction url d n "(e, D, m, evs)" arbitrary: e D m evs rule: fetch_loop_induct) simp_all

lemma fetch_loop_bad_status_last:
  assumes "fetch_loop p s url d n = Some (e, D, m, evs)"
    and "u \<in> set (requests evs)" and "s u = Inr res" and "status_code res \<noteq> 200"
  shows "e = None \<and> last (requests evs) = u"
  using assms
proof (induction url d n "(e, D, m, evs)" arbitrary: e D m evs rule: fetch_loop_induct)
  case (continue url d n res' rs d' n' next_url e D m evs)
  from continue(1,2) continue.prems have "u \<in> set (requests evs)" by auto
  with continue have "e = None \<and> last (requests evs) = u" by simp
  moreover have "requests evs \<noteq> []"
    using fetch_loop_requests_nonempty[OF continue(6)] by simp
  ultimately show ?case by simp
qed auto

lemma fetch_loop_again:
  assumes "fetch_loop p s url d n = Some (e, D, m, evs)"
    and "distinct (map run_id (fetched_runs s (requests evs)))"
    and "\<forall>r\<in>set (fetched_runs s (requests evs)). known_completed d r \<longrightarrow> status r = ''completed''"
    and "\<forall>r\<in>set (fetched_runs s (requests evs)).
           map_of D' (run_id r) = Some (tag_run (workflow_url p) r)"
  shows "\<exists>e2 k2 evs2. fetch_loop p s url D' k = Some (e2, D', k2, evs2)
           \<and> prefix (requests evs2) (requests evs)
           \<and> (\<forall>u\<in>set (butlast (requests evs2)). \<forall>r\<in>set (page_runs s u). \<not> known_completed D' r)"
  using assms
proof (induction url d n "(e, D, m, evs)" arbitrary: e D m evs k rule: fetch_loop_induct)
  case (get_raises url d n e)
  then show ?case by (subst fetch_loop.simps) simp
next
  case (bad_status url d n res)
  then show ?case by (subst fetch_loop.simps) simp
next
  case (json_raises url d n res e)
  then show ?case by (subst fetch_loop.simps) simp
next
  case (stop url d n res rs d' n' synced)
  have pr: "page_runs s url = rs" using stop(1-3) by (simp add: page_runs_def)
  from stop.prems pr
  have agree: "\<forall>r\<in>set rs. map_of D' (run_id r) = Some (tag_run (workflow_url p) r)"
    and dist: "distinct (map run_id rs)"
    and compl: "\<forall>r\<in>set rs. known_completed d r \<longrightarrow> status r = ''completed''"
    by simp_all
  from merge_runs_agree[OF agree, of k False] obtain k' where
    m2: "merge_runs (workflow_url p) rs (D', k, False) =
           (D', k', \<exists>r\<in>set rs. known_completed D' r)" by auto
  have stop2: "links_next res = None \<or> (\<exists>r\<in>set rs. known_completed D' r)"
  proof (cases "links_next res")
    case None then show ?thesis by simp
  next
    case (Some nx)
    with stop(5) have synced by simp
    from merge_runs_synced_distinct[OF dist stop(4) this]
    obtain r where r: "r \<in> set rs" "known_completed d r" by auto
    with compl have "status r = ''completed''" by simp
    with agree r(1) have "known_completed D' r" by (simp add: known_completed_stored)
    with r(1) show ?thesis by blast
  qed
  have "fetch_loop p s url D' k = Some (None, D', k', [PrintFetching, HttpGet url])"
    using stop(1-3) m2 stop2 by (subst fetch_loop.simps) (auto split: option.splits)
  then show ?case by simp
next
  case (continue url d n res rs d' n' next_url e D m evs)
  have pr: "page_runs s url = rs" using continue(1-3) by (simp add: page_runs_def)
  let ?tail = "fetched_runs s (requests evs)"
  from continue.prems pr
  have agree: "\<forall>r\<in>set rs. map_of D' (run_id r) = Some (tag_run (workflow_url p) r)"
    and agree_tail: "\<forall>r\<in>set ?tail. map_of D' (run_id r) = Some (tag_run (workflow_url p) r)"
    and dist_tail: "distinct (map run_id ?tail)"
    and disj: "\<forall>r\<in>set ?tail. run_id r \<notin> run_id ` set rs"
    and compl_tail: "\<forall>r\<in>set ?tail. known_completed d r \<longrightarrow> status r = ''completed''"
    by auto
  have d': "d' = store_runs (workflow_url p) d rs"
    using continue(4) merge_runs_data[of "workflow_url p" rs d n False] by simp
  have compl': "\<forall>r\<in>set ?tail. known_completed d' r \<longrightarrow> status r = ''completed''"
  proof
    fix r assume r: "r \<in> set ?tail"
    with disj have "map_of d' (run_id r) = map_of d (run_id r)"
      unfolding d' by (intro map_of_store_runs_other) simp
    then have "known_completed d' r = known_completed d r" by (rule known_completed_cong)
    with compl_tail r show "known_completed d' r \<longrightarrow> status r = ''completed''" by simp
  qed
  from merge_runs_agree[OF agree, of k False] obtain k' where
    m2: "merge_runs (workflow_url p) rs (D', k, False) =
           (D', k', \<exists>r\<in>set rs. known_completed D' r)" by auto
  show ?case
  proof (cases "\<exists>r\<in>set rs. known_completed D' r")
    case True
    have "fetch_loop p s url D' k = Some (None, D', k', [PrintFetching, HttpGet url])"
      using continue(1-3,5) m2 True by (subst fetch_loop.simps) simp
    then show ?thesis by simp
  next
    case False
    from continue(7)[OF dist_tail compl' agree_tail, of k']
    obtain e2 k2 evs2 where
      again: "fetch_loop p s next_url D' k' = Some (e2, D', k2, evs2)"
      and pre: "prefix (requests evs2) (requests evs)"
      and before: "\<forall>u\<in>set (butlast (requests evs2)). \<forall>r\<in>set (page_runs s u). \<not> known_completed D' r"
      by blast
    have "fetch_loop p s url D' k = Some (e2, D', k2, PrintFetching # HttpGet url # evs2)"
      using continue(1-3,5) m2 False again by (subst fetch_loop.simps) simp
    moreover have "\<forall>u\<in>set (butlast (url # requests evs2)). \<forall>r\<in>set (page_runs s u). \<not> known_completed D' r"
      using before False pr by (auto split: if_splits)
    ultimately show ?thesis using pre by simp
  qed
qed


subsection \<open>What a synchronization returns and persists\<close>

lemma workflow_runs_Some:
  assumes "workflow_runs profile session repo = Some (outcome, repo', evs)"
  obtains err data new levs where
    "fetch_loop profile session (workflow_url profile) (cached_runs repo) 0 =
       Some (err, data, new, levs)"
    "outcome = (case err of None \<Rightarrow> Inr data | Some e \<Rightarrow> Inl e)"
    "repo' = repo\<lparr>cache_file := Some data\<rparr>"
    "requests evs = requests levs"
proof -
  obtain created where c: "(case cache_file repo of None \<Rightarrow> ([], [PrintCreated])
      | Some d \<Rightarrow> (d, [])) = (cached_runs repo, created)" and rc: "requests created = []"
    by (cases "cache_file repo") (simp_all add: cached_runs_def)
  from assms c obtain err data new levs where
    f: "fetch_loop profile session (workflow_url profile) (cached_runs repo) 0 =
       Some (err, data, new, levs)"
    and o: "outcome = (case err of None \<Rightarrow> Inr data | Some e \<Rightarrow> Inl e)"
    and r: "repo' = repo\<lparr>cache_file := Some data\<rparr>"
    and e: "evs = created @ levs @ [PrintAdded new]"
    by (auto simp: workflow_runs_def split: option.splits)
  from e rc have "requests evs = requests levs" by (simp add: requests_append)
  with f o r show ?thesis by (rule that)
qed

lemma workflow_runs_from_loop:
  assumes "fetch_loop profile session (workflow_url profile) (cached_runs repo) 0 =
       Some (err, data, new, levs)"
  shows "\<exists>evs. workflow_runs profile session repo =
           Some ((case err of None \<Rightarrow> Inr data | Some e \<Rightarrow> Inl e),
                 repo\<lparr>cache_file := Some data\<rparr>, evs)
           \<and> requests evs = requests levs"
  using assms
  by (cases "cache_file repo") (simp_all add: workflow_runs_def cached_runs_def requests_append)

text \<open>
  C5. Whenever \<open>workflow_runs\<close> ends, by returning the dictionary or by letting an
  exception of the loop through, the cache file afterwards holds exactly the dictionary
  loaded at the start with the runs of every page fetched stored into it, each tagged
  with the feed: it is rewritten as a whole, every id cached before is still a key, and
  a returned dictionary is the persisted one. Nothing else of the repository changes.
\<close>

theorem workflow_runs_persists:
  assumes "workflow_runs profile session repo = Some (outcome, repo', evs)"
  shows "cache_file repo' =
           Some (store_runs (workflow_url profile) (cached_runs repo)
                   (fetched_runs session (requests evs)))
         \<and> fst ` set (cached_runs repo) \<subseteq> fst ` set (the (cache_file repo'))
         \<and> (\<forall>data. outcome = Inr data \<longrightarrow> cache_file repo' = Some data)
         \<and> head_commit repo' = head_commit repo"
proof -
  from assms obtain err data new levs where
    f: "fetch_loop profile session (workflow_url profile) (cached_runs repo) 0 =
       Some (err, data, new, levs)"
    and o: "outcome = (case err of None \<Rightarrow> Inr data | Some e \<Rightarrow> Inl e)"
    and r: "repo' = repo\<lparr>cache_file := Some data\<rparr>"
    and e: "requests evs = requests levs"
    by (rule workflow_runs_Some)
  from fetch_loop_data[OF f] e
  have d: "data = store_runs (workflow_url profile) (cached_runs repo)
             (fetched_runs session (requests evs))" by simp
  have "dom (map_of (cached_runs repo)) \<subseteq> dom (map_of data)"
    unfolding d by (simp add: dom_store_runs)
  then have k: "fst ` set (cached_runs repo) \<subseteq> fst ` set data"
    by (simp add: dom_map_of_conv_image_fst)
  from o have "\<forall>x. outcome = Inr x \<longrightarrow> x = data" by (auto split: option.splits)
  with d k r show ?thesis by auto
qed

lemmas sync_eval =
  workflow_runs_def fetch_loop.simps scenario_session_defs scenario_run_defs
  known_completed_def

theorem workflow_runs_persists_witness:
  "workflow_runs scenario_profile broken_session scenario_repo =
     Some (Inl RequestError, scenario_repo\<lparr>cache_file := Some (take 2 scenario_synced)\<rparr>,
           [PrintCreated, PrintFetching, HttpGet SERVER_BUILD_URL, PrintFetching,
            HttpGet ''page2'', PrintAdded 2])
   \<and> store_runs (workflow_url scenario_profile) (cached_runs scenario_repo)
        (fetched_runs broken_session [SERVER_BUILD_URL, ''page2'']) = take 2 scenario_synced
   \<and> workflow_runs scenario_profile scenario_session scenario_repo =
     Some (Inr scenario_synced, scenario_repo\<lparr>cache_file := Some scenario_synced\<rparr>,
           [PrintCreated, PrintFetching, HttpGet SERVER_BUILD_URL, PrintFetching,
            HttpGet ''page2'', PrintAdded 4])
   \<and> store_runs (workflow_url scenario_profile) (cached_runs scenario_repo)
        (fetched_runs scenario_session [SERVER_BUILD_URL, ''page2'']) = scenario_synced"
proof -
  have b: "workflow_runs scenario_profile broken_session scenario_repo =
     Some (Inl RequestError, scenario_repo\<lparr>cache_file := Some (take 2 scenario_synced)\<rparr>,
           [PrintCreated, PrintFetching, HttpGet SERVER_BUILD_URL, PrintFetching,
            HttpGet ''page2'', PrintAdded 2])"
    by (simp add: sync_eval)
  have s: "workflow_runs scenario_profile scenario_session scenario_repo =
     Some (Inr scenario_synced, scenario_repo\<lparr>cache_file := Some scenario_synced\<rparr>,
           [PrintCreated, PrintFetching, HttpGet SERVER_BUILD_URL, PrintFetching,
            HttpGet ''page2'', PrintAdded 4])"
    by (simp add: sync_eval)
  show ?thesis
    using b s workflow_runs_persists[OF b] workflow_runs_persists[OF s] by simp
qed

text \<open>
  C6. A page that answers with a status other than 200 ends the loop there without an
  exception, with the dictionary as it is. So when \<open>workflow_runs\<close> has requested such
  a page, that request was its last, it returns (and has persisted) the dictionary
  loaded at the start with the runs of the pages fetched before stored into it. In
  particular, with an empty cache file and such an answer on the first page it returns
  the empty dictionary, on which the locator raises the \<open>DeployError\<close> for a missing
  run, and so does \<open>deploy\<close> for a commit that has all tracked paths.
\<close>

theorem workflow_runs_soft_degrade:
  "(session url = Inr res \<and> status_code res \<noteq> 200 \<longrightarrow>
      fetch_loop profile session url data new =
        Some (None, data, new,
              [PrintFetching, HttpGet url, PrintUnexpected (status_code res) (res_text res)]))
   \<and> (workflow_runs profile session repo = Some (outcome, repo', evs)
        \<and> u \<in> set (requests evs) \<and> session u = Inr res \<and> status_code res \<noteq> 200 \<longrightarrow>
      last (requests evs) = u
      \<and> outcome = Inr (store_runs (workflow_url profile) (cached_runs repo)
                        (fetched_runs session (requests evs)))
      \<and> cache_file repo' = Some (store_runs (workflow_url profile) (cached_runs repo)
                                  (fetched_runs session (requests evs))))
   \<and> (cache_file repo = None \<and> session (workflow_url profile) = Inr res
        \<and> status_code res \<noteq> 200 \<longrightarrow>
      workflow_runs profile session repo =
        Some (Inr [], repo\<lparr>cache_file := Some []\<rparr>,
              [PrintCreated, PrintFetching, HttpGet (workflow_url profile),
               PrintUnexpected (status_code res) (res_text res), PrintAdded 0])
      \<and> find_workflow_run profile [] wanted_commits =
          (Inl (DeployError ''Did not find successful matching workflow run.''),
           [PrintMatching])
      \<and> (set (files profile) \<subseteq> dom (tree commit) \<longrightarrow>
          (\<exists>evs'. deploy profile session repo commit =
             Some (Inl (DeployError ''Did not find successful matching workflow run.''),
                   repo\<lparr>cache_file := Some []\<rparr>, evs'))))"
proof (intro conjI impI; (elim conjE)?)
  assume "session url = Inr res" "status_code res \<noteq> 200"
  then show "fetch_loop profile session url data new =
        Some (None, data, new,
              [PrintFetching, HttpGet url, PrintUnexpected (status_code res) (res_text res)])"
    by (subst fetch_loop.simps) simp
next
  assume w: "workflow_runs profile session repo = Some (outcome, repo', evs)"
    and u: "u \<in> set (requests evs)" "session u = Inr res" "status_code res \<noteq> 200"
  from w obtain err data' new' levs where
    f: "fetch_loop profile session (workflow_url profile) (cached_runs repo) 0 =
       Some (err, data', new', levs)"
    and o: "outcome = (case err of None \<Rightarrow> Inr data' | Some e \<Rightarrow> Inl e)"
    and r: "repo' = repo\<lparr>cache_file := Some data'\<rparr>"
    and e: "requests evs = requests levs"
    by (rule workflow_runs_Some)
  from fetch_loop_bad_status_last[OF f _ u(2,3)] u(1) e
  have l: "err = None" "last (requests evs) = u" by simp_all
  from fetch_loop_data[OF f] e
  have d: "data' = store_runs (workflow_url profile) (cached_runs repo)
             (fetched_runs session (requests evs))" by simp
  show "last (requests evs) = u" by (rule l)
  show "outcome = Inr (store_runs (workflow_url profile) (cached_runs repo)
                        (fetched_runs session (requests evs)))"
    using o l d by simp
  show "cache_file repo' = Some (store_runs (workflow_url profile) (cached_runs repo)
                                  (fetched_runs session (requests evs)))"
    using r d by simp
next
  assume a: "cache_file repo = None" "session (workflow_url profile) = Inr res"
    "status_code res \<noteq> 200"
  then show w: "workflow_runs profile session repo =
        Some (Inr [], repo\<lparr>cache_file := Some []\<rparr>,
              [PrintCreated, PrintFetching, HttpGet (workflow_url profile),
               PrintUnexpected (status_code res) (res_text res), PrintAdded 0])"
    by (simp add: workflow_runs_def fetch_loop.simps)
  show l: "find_workflow_run profile [] wanted_commits =
          (Inl (DeployError ''Did not find successful matching workflow run.''),
           [PrintMatching])"
    by (simp add: find_workflow_run_def)
  assume "set (files profile) \<subseteq> dom (tree commit)"
  then have "deploy_wanted_commits profile repo commit =
      Inr (set (find_commits (head_commit repo) (files profile)
                  (map (\<lambda>path. the (tree commit path)) (files profile))))"
    by (simp add: deploy_wanted_commits_def hash_files_eq)
  with w show "\<exists>evs'. deploy profile session repo commit =
             Some (Inl (DeployError ''Did not find successful matching workflow run.''),
                   repo\<lparr>cache_file := Some []\<rparr>, evs')"
    by (simp add: deploy_def find_workflow_run_def)
qed

theorem workflow_runs_soft_degrade_witness:
  "outage_session (workflow_url scenario_profile) =
     Inr \<lparr>status_code = 500, res_text = ''Internal Server Error'', body = NotJson,
          links_next = None\<rparr>
   \<and> cache_file scenario_repo = None
   \<and> workflow_runs scenario_profile outage_session scenario_repo =
       Some (Inr [], scenario_repo\<lparr>cache_file := Some []\<rparr>,
             [PrintCreated, PrintFetching, HttpGet SERVER_BUILD_URL,
              PrintUnexpected 500 ''Internal Server Error'', PrintAdded 0])
   \<and> set (files scenario_profile) \<subseteq> dom (tree scenario_X)
   \<and> (\<exists>evs'. deploy scenario_profile outage_session scenario_repo scenario_X =
        Some (Inl (DeployError ''Did not find successful matching workflow run.''),
              scenario_repo\<lparr>cache_file := Some []\<rparr>, evs'))
   \<and> workflow_runs scenario_profile flaky_session scenario_repo =
       Some (Inr (take 2 scenario_synced),
             scenario_repo\<lparr>cache_file := Some (take 2 scenario_synced)\<rparr>,
             [PrintCreated, PrintFetching, HttpGet SERVER_BUILD_URL, PrintFetching,
              HttpGet ''page2'', PrintUnexpected 502 ''Bad Gateway'', PrintAdded 2])
   \<and> flaky_session ''page2'' =
       Inr \<lparr>status_code = 502, res_text = ''Bad Gateway'', body = NotJson,
            links_next = None\<rparr>"
proof -
  let ?r500 = "\<lparr>status_code = 500, res_text = ''Internal Server Error'', body = NotJson,
          links_next = None\<rparr>"
  let ?r502 = "\<lparr>status_code = 502, res_text = ''Bad Gateway'', body = NotJson,
            links_next = None\<rparr>"
  have o: "outage_session (workflow_url scenario_profile) = Inr ?r500"
    by (simp add: outage_session_def)
  have c: "cache_file scenario_repo = None" by (simp add: scenario_repo_def)
  have s: "status_code ?r500 \<noteq> 200" by simp
  have t: "set (files scenario_profile) \<subseteq> dom (tree scenario_X)"
    by (simp add: scenario_profile_def scenario_defs)
  have f: "workflow_runs scenario_profile flaky_session scenario_repo =
       Some (Inr (take 2 scenario_synced),
             scenario_repo\<lparr>cache_file := Some (take 2 scenario_synced)\<rparr>,
             [PrintCreated, PrintFetching, HttpGet SERVER_BUILD_URL, PrintFetching,
              HttpGet ''page2'', PrintUnexpected 502 ''Bad Gateway'', PrintAdded 2])"
    by (simp add: sync_eval)
  have p: "flaky_session ''page2'' = Inr ?r502"
    by (simp add: flaky_session_def SERVER_BUILD_URL_def)
  have u: "workflow_url scenario_profile = SERVER_BUILD_URL"
    by (simp add: scenario_profile_def server_profile_def)
  show ?thesis
    using o c s t f p
      workflow_runs_soft_degrade[of outage_session "workflow_url scenario_profile" ?r500
        scenario_profile "[]" 0 scenario_repo "Inr []" "scenario_repo\<lparr>cache_file := Some []\<rparr>"
        "[]" "workflow_url scenario_profile" "{}" scenario_X]
    by (simp add: u)
qed

text \<open>
  C4 (as stated, refuted). The cache knows run 5 as completed; the feed, unchanged
  between the two synchronizations, lists it as in progress on a first page that links
  to a second. The first synchronization stops after the first page; the second one
  no longer finds a completed known run there, goes on to the second page and persists
  a dictionary with two more runs.
\<close>

theorem workflow_runs_twice_differs:
  "workflow_runs scenario_profile rerun_session
       (scenario_repo\<lparr>cache_file := Some rerun_cache\<rparr>) =
     Some (Inr rerun_first, scenario_repo\<lparr>cache_file := Some rerun_first\<rparr>,
           [PrintFetching, HttpGet SERVER_BUILD_URL, PrintAdded 0])
   \<and> workflow_runs scenario_profile rerun_session
       (scenario_repo\<lparr>cache_file := Some rerun_first\<rparr>) =
     Some (Inr rerun_second, scenario_repo\<lparr>cache_file := Some rerun_second\<rparr>,
           [PrintFetching, HttpGet SERVER_BUILD_URL, PrintFetching, HttpGet ''page2'',
            PrintAdded 3])
   \<and> rerun_second \<noteq> rerun_first"
  by (simp add: sync_eval)

text \<open>
  The same happens without any prior cache when the feed lists one run id twice with
  different contents: the second synchronization overwrites what the first persisted.
\<close>

lemma workflow_runs_twice_duplicate_ids:
  "workflow_runs scenario_profile duplicate_session scenario_repo =
     Some (Inr rerun_cache, scenario_repo\<lparr>cache_file := Some rerun_cache\<rparr>,
           [PrintCreated, PrintFetching, HttpGet SERVER_BUILD_URL, PrintFetching,
            HttpGet ''page2'', PrintAdded 2])
   \<and> workflow_runs scenario_profile duplicate_session
       (scenario_repo\<lparr>cache_file := Some rerun_cache\<rparr>) =
     Some (Inr rerun_first, scenario_repo\<lparr>cache_file := Some rerun_first\<rparr>,
           [PrintFetching, HttpGet SERVER_BUILD_URL, PrintAdded 0])
   \<and> rerun_first \<noteq> rerun_cache"
  by (simp add: sync_eval)

text \<open>
  C4 (amended). Let a synchronization end, and let every run id occur at most once on
  the pages it fetched and no run that the cache had as completed be listed there as
  not completed. Then a second synchronization against the same feed ends too and
  leaves the cache file (and the repository) exactly as the first one left it; it
  requests an initial part of the pages the first one requested, and no page before its
  last one lists a run that the cache has as completed.
\<close>

theorem workflow_runs_idempotent:
  assumes "workflow_runs profile session repo = Some (outcome, repo1, evs)"
    and "distinct (map run_id (fetched_runs session (requests evs)))"
    and "\<forall>r\<in>set (fetched_runs session (requests evs)).
           known_completed (cached_runs repo) r \<longrightarrow> status r = ''completed''"
  shows "\<exists>outcome2 evs2.
           workflow_runs profile session repo1 = Some (outcome2, repo1, evs2)
           \<and> prefix (requests evs2) (requests evs)
           \<and> (\<forall>u\<in>set (butlast (requests evs2)). \<forall>r\<in>set (page_runs session u).
                \<not> known_completed (cached_runs repo1) r)"
proof -
  from assms(1) obtain err data new levs where
    f: "fetch_loop profile session (workflow_url profile) (cached_runs repo) 0 =
       Some (err, data, new, levs)"
    and r: "repo1 = repo\<lparr>cache_file := Some data\<rparr>"
    and e: "requests evs = requests levs"
    by (rule workflow_runs_Some)
  have c1: "cached_runs repo1 = data" by (simp add: r cached_runs_def)
  have d: "data = store_runs (workflow_url profile) (cached_runs repo)
             (fetched_runs session (requests levs))"
    by (rule fetch_loop_data[OF f])
  from assms(2) e have dist: "distinct (map run_id (fetched_runs session (requests levs)))"
    by simp
  from assms(3) e
  have compl: "\<forall>r\<in>set (fetched_runs session (requests levs)).
           known_completed (cached_runs repo) r \<longrightarrow> status r = ''completed''" by simp
  have agree: "\<forall>r\<in>set (fetched_runs session (requests levs)).
           map_of data (run_id r) = Some (tag_run (workflow_url profile) r)"
    using dist by (subst d) (simp add: map_of_store_runs_distinct)
  from fetch_loop_again[OF f dist compl agree, of 0]
  obtain e2 k2 levs2 where
    f2: "fetch_loop profile session (workflow_url profile) data 0 = Some (e2, data, k2, levs2)"
    and p: "prefix (requests levs2) (requests levs)"
    and b: "\<forall>u\<in>set (butlast (requests levs2)). \<forall>r\<in>set (page_runs session u).
              \<not> known_completed data r"
    by blast
  from f2 c1 have "fetch_loop profile session (workflow_url profile) (cached_runs repo1) 0 =
      Some (e2, data, k2, levs2)" by simp
  from workflow_runs_from_loop[OF this]
  obtain evs2 where w2: "workflow_runs profile session repo1 =
           Some ((case e2 of None \<Rightarrow> Inr data | Some e \<Rightarrow> Inl e),
                 repo1\<lparr>cache_file := Some data\<rparr>, evs2)"
    and e2: "requests evs2 = requests levs2" by blast
  have "repo1\<lparr>cache_file := Some data\<rparr> = repo1" by (simp add: r)
  with w2 p b e e2 c1 show ?thesis by auto
qed

theorem workflow_runs_idempotent_witness:
  "workflow_runs scenario_profile scenario_session scenario_repo =
     Some (Inr scenario_synced, scenario_repo\<lparr>cache_file := Some scenario_synced\<rparr>,
           [PrintCreated, PrintFetching, HttpGet SERVER_BUILD_URL, PrintFetching,
            HttpGet ''page2'', PrintAdded 4])
   \<and> map run_id (fetched_runs scenario_session [SERVER_BUILD_URL, ''page2'']) = [6, 5, 4, 3]
   \<and> distinct (map run_id (fetched_runs scenario_session [SERVER_BUILD_URL, ''page2'']))
   \<and> filter (known_completed (cached_runs scenario_repo))
         (fetched_runs scenario_session [SERVER_BUILD_URL, ''page2'']) = []
   \<and> workflow_runs scenario_profile scenario_session
         (scenario_repo\<lparr>cache_file := Some scenario_synced\<rparr>) =
     Some (Inr scenario_synced, scenario_repo\<lparr>cache_file := Some scenario_synced\<rparr>,
           [PrintFetching, HttpGet SERVER_BUILD_URL, PrintAdded 1])"
proof -
  have s: "workflow_runs scenario_profile scenario_session scenario_repo =
     Some (Inr scenario_synced, scenario_repo\<lparr>cache_file := Some scenario_synced\<rparr>,
           [PrintCreated, PrintFetching, HttpGet SERVER_BUILD_URL, PrintFetching,
            HttpGet ''page2'', PrintAdded 4])"
    by (simp add: sync_eval)
  have r: "requests [PrintCreated, PrintFetching, HttpGet SERVER_BUILD_URL, PrintFetching,
            HttpGet ''page2'', PrintAdded 4] = [SERVER_BUILD_URL, ''page2'']" by simp
  have d: "distinct (map run_id (fetched_runs scenario_session [SERVER_BUILD_URL, ''page2'']))"
    by (simp add: page_runs_def scenario_session_def scenario_run_defs)
  have k: "\<forall>r\<in>set (fetched_runs scenario_session [SERVER_BUILD_URL, ''page2'']).
         known_completed (cached_runs scenario_repo) r \<longrightarrow> status r = ''completed''"
    by (simp add: cached_runs_def scenario_repo_def known_completed_def)
  have t: "workflow_runs scenario_profile scenario_session
         (scenario_repo\<lparr>cache_file := Some scenario_synced\<rparr>) =
     Some (Inr scenario_synced, scenario_repo\<lparr>cache_file := Some scenario_synced\<rparr>,
           [PrintFetching, HttpGet SERVER_BUILD_URL, PrintAdded 1])"
    by (simp add: sync_eval)
  have i: "map run_id (fetched_runs scenario_session [SERVER_BUILD_URL, ''page2'']) =
      [6, 5, 4, 3]"
    by (simp add: page_runs_def scenario_session_def scenario_run_defs)
  have n: "filter (known_completed (cached_runs scenario_repo))
         (fetched_runs scenario_session [SERVER_BUILD_URL, ''page2'']) = []"
    by (simp add: cached_runs_def scenario_repo_def known_completed_def)
  show ?thesis
    using s d i n t workflow_runs_idempotent[OF s, unfolded r, OF d k] by simp
qed

end
